theory Spec2Isabelle
  imports Main "HOL-Library.Sublist"
begin

section \<open>Python strings\<close>

text \<open>
  A Python \<open>str\<close> is a sequence of code points. The model takes one \<^typ>\<open>char\<close> per code
  point and so covers the texts whose code points are below 256; \<open>len\<close> is \<^const>\<open>length\<close>.
  The two character tests below are \<open>str.isspace\<close> and \<open>str.isdigit\<close> on that range:
  the white space characters are U+0009 to U+000D, U+001C to U+0020, U+0085 and U+00A0,
  and the digits are \<open>0\<close> to \<open>9\<close> together with the superscript digits U+00B2, U+00B3
  and U+00B9 (which \<open>isdigit\<close> accepts and \<open>isdecimal\<close> does not).
\<close>

definition isspace :: "char \<Rightarrow> bool" where
  "isspace c =
     (let n = (of_char c :: nat)
      in (9 \<le> n \<and> n \<le> 13) \<or> (28 \<le> n \<and> n \<le> 32) \<or> n = 133 \<or> n = 160)"

definition isdecimal :: "char \<Rightarrow> bool" where
  "isdecimal c = (let n = (of_char c :: nat) in 48 \<le> n \<and> n \<le> 57)"

definition isdigit :: "char \<Rightarrow> bool" where
  "isdigit c =
     (let n = (of_char c :: nat)
      in (48 \<le> n \<and> n \<le> 57) \<or> n = 178 \<or> n = 179 \<or> n = 185)"

text \<open>\<open>s.lstrip()\<close>, \<open>s.rstrip()\<close> and \<open>s.strip()\<close>: white space removed at the ends.\<close>

definition lstrip :: "string \<Rightarrow> string" where
  "lstrip s = dropWhile isspace s"

definition rstrip :: "string \<Rightarrow> string" where
  "rstrip s = rev (dropWhile isspace (rev s))"

definition strip :: "string \<Rightarrow> string" where
  "strip s = rstrip (lstrip s)"

text \<open>\<open>s.split(sep)\<close> for a separator of one character; the result is never empty.\<close>

fun py_split :: "char \<Rightarrow> string \<Rightarrow> string list" where
  "py_split sep [] = [[]]"
| "py_split sep (c # cs) =
     (if c = sep then [] # py_split sep cs
      else (case py_split sep cs of
              [] \<Rightarrow> [[c]]
            | l # ls \<Rightarrow> (c # l) # ls))"

text \<open>\<open>s.split(sep, 1)\<close>: at most one split, at the first separator.\<close>

definition py_split1 :: "char \<Rightarrow> string \<Rightarrow> string list" where
  "py_split1 sep s =
     (if sep \<in> set s
      then [takeWhile (\<lambda>c. c \<noteq> sep) s, tl (dropWhile (\<lambda>c. c \<noteq> sep) s)]
      else [s])"

text \<open>\<open>sep.join(xs)\<close> for a separator of one character.\<close>

fun py_join :: "char \<Rightarrow> string list \<Rightarrow> string" where
  "py_join sep [] = []"
| "py_join sep [x] = x"
| "py_join sep (x # y # ys) = x @ sep # py_join sep (y # ys)"

text \<open>
  The exceptions of the model. Indexing with a non-negative index raises \<open>IndexError\<close>
  out of range; binding an integer parameter of an SQL statement raises \<open>OverflowError\<close>
  when the integer is outside the signed 64-bit range.
\<close>

datatype py_error = IndexError | OverflowError

definition getitem :: "'a list \<Rightarrow> nat \<Rightarrow> py_error + 'a" where
  "getitem xs i = (if i < length xs then Inr (xs ! i) else Inl IndexError)"

definition nl :: char where
  "nl = CHR 0x0A"

section \<open>The plan extractor (\<open>planner\<close>, from \<open>plan = []\<close> to the padding loop)\<close>

definition filler :: string where
  "filler = ''Review and validate implementation''"

text \<open>
  The block \<open>if '.' in line[:10]: ...\<close> of the loop body, on the stripped line: it
  returns the plan, with the step text appended when the line yields one.
\<close>

definition append_step :: "string \<Rightarrow> string list \<Rightarrow> py_error + string list" where
  "append_step line plan =
     (if CHR ''.'' \<in> set (take 10 line) then
        (let parts = py_split1 CHR ''.'' line in
         if 1 < length parts then
           (case getitem parts 1 of
              Inl e \<Rightarrow> Inl e
            | Inr p \<Rightarrow>
                (let step_text = strip p in
                 if step_text \<noteq> [] \<and> 10 < length step_text
                 then Inr (plan @ [step_text])
                 else Inr plan))
         else Inr plan)
      else Inr plan)"

text \<open>
  The \<open>for\<close> loop over the lines. The test \<open>len(plan) >= 5\<close> with its \<open>break\<close> sits
  inside the branch of the digit-led lines, as in the source.
\<close>

fun scan :: "string list \<Rightarrow> string list \<Rightarrow> py_error + string list" where
  "scan [] plan = Inr plan"
| "scan (l # ls) plan =
     (let line = strip l in
      if line = [] then scan ls plan
      else (case getitem line 0 of
              Inl e \<Rightarrow> Inl e
            | Inr c \<Rightarrow>
                if isdigit c \<and> 5 < length line then
                  (case append_step line plan of
                     Inl e \<Rightarrow> Inl e
                   | Inr plan' \<Rightarrow> if 5 \<le> length plan' then Inr plan' else scan ls plan')
                else scan ls plan))"

text \<open>The loop \<open>while len(plan) < 3: plan.append(...)\<close>.\<close>

function pad :: "string list \<Rightarrow> string list" where
  "pad plan = (if length plan < 3 then pad (plan @ [filler]) else plan)"
  by pat_completeness auto
termination
  by (relation "measure (\<lambda>plan. 3 - length plan)") auto

declare pad.simps [simp del]

text \<open>The extractor on \<open>plan_text\<close>, and on the raw completion, which is stripped first.\<close>

definition extract_plan :: "string \<Rightarrow> py_error + string list" where
  "extract_plan plan_text =
     (case scan (py_split nl plan_text) [] of
        Inl e \<Rightarrow> Inl e
      | Inr plan \<Rightarrow> Inr (pad plan))"

definition planner_plan :: "string \<Rightarrow> py_error + string list" where
  "planner_plan content = extract_plan (strip content)"

text \<open>
  The tests of the loop body on one line of the text, put together: the loop accepts a
  line when, trimmed, it is not empty, starts with a character that \<open>isdigit\<close> accepts,
  is longer than 5 characters, has a \<open>.\<close> among its first 10 characters, and the trimmed
  text after its first \<open>.\<close> is longer than 10 characters. That text is the step of the
  line. (Lemma \<open>scan_single\<close> below relates the two definitions to the loop.)
\<close>

definition step_text_of :: "string \<Rightarrow> string" where
  "step_text_of l = strip (tl (dropWhile (\<lambda>c. c \<noteq> CHR ''.'') (strip l)))"

definition well_formed :: "string \<Rightarrow> bool" where
  "well_formed l =
     (let t = strip l
      in t \<noteq> [] \<and> isdigit (hd t) \<and> 5 < length t \<and> CHR ''.'' \<in> set (take 10 t)
         \<and> 10 < length (step_text_of l))"

text \<open>
  A well-formed line in the words of the specification, which asks for a decimal digit
  as the first character: one of \<open>0\<close> to \<open>9\<close>.
\<close>

definition well_formed_decimal :: "string \<Rightarrow> bool" where
  "well_formed_decimal l =
     (let t = strip l
      in t \<noteq> [] \<and> isdecimal (hd t) \<and> 5 < length t \<and> CHR ''.'' \<in> set (take 10 t)
         \<and> 10 < length (step_text_of l))"

section \<open>The decision store\<close>

text \<open>
  The two tables of \<open>init_db\<close>. Each has \<open>id INTEGER PRIMARY KEY\<close> and no other
  constraint: in particular the column \<open>task\<close> of the table \<open>tasks\<close> is not declared
  unique. A table is the list of its rows; the rows are read in the order of their
  ids, which is the order of a scan of the table. The text columns hold strings (the
  code never stores a null).
\<close>

record decision =
  d_id :: int
  d_timestamp :: string
  d_task :: string
  d_decision :: string
  d_reasoning :: string

record task_row =
  t_id :: int
  t_task :: string
  t_plan :: string
  t_status :: string

record db =
  decisions :: "decision list"
  tasks :: "task_row list"

text \<open>
  \<open>CREATE TABLE IF NOT EXISTS\<close>: the tables are created empty when the store has none
  (\<open>None\<close>) and are left as they are otherwise.
\<close>

definition init_db :: "db option \<Rightarrow> db" where
  "init_db st = (case st of None \<Rightarrow> \<lparr>decisions = [], tasks = []\<rparr> | Some d \<Rightarrow> d)"

text \<open>
  The id given to a row inserted without one: one more than the largest id in the table,
  and 1 in an empty table. (The choice made when the largest id is the largest 64-bit
  integer is left out of the model.)
\<close>

definition next_rowid :: "int list \<Rightarrow> int" where
  "next_rowid ids = (if ids = [] then 1 else Max (set ids) + 1)"

text \<open>\<open>save_decision\<close>; the time stamp \<open>datetime.now().isoformat()\<close> is the argument \<open>now\<close>.\<close>

definition save_decision :: "db \<Rightarrow> string \<Rightarrow> string \<Rightarrow> string \<Rightarrow> string \<Rightarrow> db" where
  "save_decision s now task decision reasoning =
     s\<lparr>decisions := decisions s @
          [\<lparr>d_id = next_rowid (map d_id (decisions s)), d_timestamp = now, d_task = task,
            d_decision = decision, d_reasoning = reasoning\<rparr>]\<rparr>"

text \<open>
  \<open>save_full_plan\<close>: \<open>INSERT OR REPLACE\<close> removes the rows that conflict with the new
  row on a uniqueness constraint, and the only such constraint is the primary key \<open>id\<close>.
\<close>

definition save_full_plan :: "db \<Rightarrow> string \<Rightarrow> string list \<Rightarrow> db" where
  "save_full_plan s task plan =
     (let new = \<lparr>t_id = next_rowid (map t_id (tasks s)), t_task = task,
                 t_plan = py_join CHR ''|'' plan, t_status = ''planned''\<rparr>
      in s\<lparr>tasks := filter (\<lambda>r. t_id r \<noteq> t_id new) (tasks s) @ [new]\<rparr>)"

text \<open>The integers that can be bound to a parameter of a statement.\<close>

definition in_int64 :: "int \<Rightarrow> bool" where
  "in_int64 i = (- 9223372036854775808 \<le> i \<and> i \<le> 9223372036854775807)"

text \<open>
  \<open>delete_decision\<close>: the two \<open>DELETE\<close> statements in the order of the source. The
  first \<open>execute\<close> binds \<open>decision_id\<close> and raises \<open>OverflowError\<close>, before any row is
  touched, when it is outside the signed 64-bit range. The second statement compares
  \<open>task\<close> with a scalar subquery on the table \<open>decisions\<close> as the first statement left
  it; a subquery without rows is null, and no row compares equal to null.
\<close>

definition delete_decision :: "db \<Rightarrow> int \<Rightarrow> py_error + db" where
  "delete_decision s decision_id =
     (if in_int64 decision_id then
        (let s1 = s\<lparr>decisions := filter (\<lambda>r. d_id r \<noteq> decision_id) (decisions s)\<rparr>;
             sub = (case filter (\<lambda>r. d_id r = decision_id) (sort_key d_id (decisions s1)) of
                      [] \<Rightarrow> None
                    | r # _ \<Rightarrow> Some (d_task r))
         in (case sub of
               None \<Rightarrow> Inr s1
             | Some t \<Rightarrow> Inr (s1\<lparr>tasks := filter (\<lambda>r. t_task r \<noteq> t) (tasks s1)\<rparr>)))
      else Inl OverflowError)"

text \<open>
  The operator \<open>LIKE\<close> of SQLite, pattern first. SQLite reads the pattern and the text
  as C strings, that is up to their first character U+0000 (\<open>c_str\<close>). In what it reads,
  \<open>%\<close> stands for any sequence of characters, \<open>_\<close> for any one character, and any other
  character for itself, the ASCII letters without regard to case (\<open>like_chars\<close>).
\<close>

definition c_str :: "string \<Rightarrow> string" where
  "c_str s = takeWhile (\<lambda>c. c \<noteq> CHR 0x00) s"

definition ascii_lower :: "char \<Rightarrow> char" where
  "ascii_lower c =
     (let n = (of_char c :: nat) in if 65 \<le> n \<and> n \<le> 90 then char_of (n + 32) else c)"

fun like_chars :: "string \<Rightarrow> string \<Rightarrow> bool" where
  "like_chars [] s = (s = [])"
| "like_chars (p # ps) [] = (p = CHR ''%'' \<and> like_chars ps [])"
| "like_chars (p # ps) (c # cs) =
     (if p = CHR ''%'' then like_chars ps (c # cs) \<or> like_chars (p # ps) cs
      else (p = CHR ''_'' \<or> ascii_lower p = ascii_lower c) \<and> like_chars ps cs)"

definition like :: "string \<Rightarrow> string \<Rightarrow> bool" where
  "like p s = like_chars (c_str p) (c_str s)"

text \<open>
  \<open>get_recent_decisions\<close>; the argument is \<open>None\<close> when it is left out. The test
  \<open>if task_input:\<close> fails for \<open>None\<close> and for the empty string.
\<close>

definition get_recent_decisions :: "string option \<Rightarrow> db \<Rightarrow> decision list" where
  "get_recent_decisions task_input s =
     (let unfiltered = take 10 (rev (sort_key d_id (decisions s)))
      in (case task_input of
            None \<Rightarrow> unfiltered
          | Some f \<Rightarrow>
              if f \<noteq> [] then
                take 5 (rev (sort_key d_id
                  (filter (\<lambda>r. like (''%'' @ take 30 f @ ''%'') (d_task r)) (decisions s))))
              else unfiltered))"

text \<open>\<open>get_task_plan\<close>: \<open>fetchone\<close> gives the first row of the result, if there is one.\<close>

definition get_task_plan :: "db \<Rightarrow> string \<Rightarrow> string list" where
  "get_task_plan s task =
     (case filter (\<lambda>r. t_task r = task) (sort_key t_id (tasks s)) of
        [] \<Rightarrow> []
      | r # _ \<Rightarrow> py_split CHR ''|'' (t_plan r))"

text \<open>
  The vocabulary of the specification for \<open>recent\<close>: \<open>res\<close> is the \<open>n\<close> most recent of
  the candidates, by descending id, when it has \<open>n\<close> of them (all, if there are fewer),
  its ids go strictly down, so that no record is repeated, and every candidate left
  out is older than every one returned. At most one list is the \<open>n\<close> most recent of
  given candidates (lemma \<open>newest_unique\<close> below).
\<close>

definition newest :: "nat \<Rightarrow> decision list \<Rightarrow> decision list \<Rightarrow> bool" where
  "newest n cands res =
     (length res = min n (length cands) \<and>
      sorted_wrt (\<lambda>a b. d_id b < d_id a) res \<and>
      set res \<subseteq> set cands \<and>
      (\<forall>r \<in> set cands. r \<notin> set res \<longrightarrow> (\<forall>x \<in> set res. d_id r < d_id x)))"

section \<open>Example inputs\<close>

definition saas_completion :: string where
  "saas_completion =
     ''1. Set up cloud infra'' @ nl # ''2. Configure CI/CD'' @ nl #
     ''3. Build dashboard UI'' @ nl # ''4. Add auth'' @ nl # ''5. Deploy to staging''"

definition refusal_completion :: string where
  "refusal_completion = ''I am sorry, I cannot plan this task.''"

definition two_step_completion :: string where
  "two_step_completion =
     ''Sure, here is a plan:'' @ nl # ''1. Write the parser'' @ nl # ''2. TBD'' @ nl #
     ''3) Ship it to production'' @ nl # ''4. Measure the results''"

definition six_step_completion :: string where
  "six_step_completion =
     ''1. Collect requirements'' @ nl # ''2. Design the schema'' @ nl #
     ''3. Implement the service'' @ nl # ''4. Write the tests'' @ nl #
     ''5. Deploy to staging'' @ nl # ''6. Monitor the rollout''"

text \<open>
  A line that starts with the superscript digit U+00B2, alone, before two numbered
  lines, and before six.
\<close>

definition superscript_line :: string where
  "superscript_line = CHR 0xB2 # ''. Square the input''"

definition superscript_two_completion :: string where
  "superscript_two_completion =
     superscript_line @ nl # ''1. Write the parser'' @ nl # ''2. Measure the results''"

definition superscript_completion :: string where
  "superscript_completion = CHR 0xB2 # ''. Square the input'' @ nl # six_step_completion"

text \<open>A store after one run of the planner, and that store after a second plan for the same task.\<close>

definition store_one :: db where
  "store_one =
     save_full_plan
       (save_decision (init_db None) ''2026-01-05T10:00:00'' ''Launch new SaaS dashboard''
          ''Plan Generated: 3 steps''
          ''Generated 3 actionable steps based on task requirements'')
       ''Launch new SaaS dashboard''
       [''Set up cloud infra'', ''Configure CI/CD'', ''Build dashboard UI'']"

definition store_two :: db where
  "store_two =
     save_full_plan store_one ''Launch new SaaS dashboard''
       [''Write the parser'', ''Measure the results'', filler]"

text \<open>A store of seven decisions, saved one after the other into an empty store.\<close>

definition store_seven :: db where
  "store_seven =
     foldl (\<lambda>s task. save_decision s ''2026-01-05T10:00:00'' task ''Plan Generated: 3 steps''
                        ''Generated 3 actionable steps based on task requirements'')
       (init_db None)
       [''Launch new SaaS dashboard'', ''Configure CI/CD for the SAAS'', ''Onboard the intern'',
        ''saas billing'', ''Migrate Saas logs'', ''Write the SaaS runbook'', ''Retire the old saas'']"

text \<open>A store of twelve decisions.\<close>

definition store_twelve :: db where
  "store_twelve =
     foldl (\<lambda>s task. save_decision s ''2026-01-05T10:00:00'' task ''Plan Generated: 3 steps''
                        ''Generated 3 actionable steps based on task requirements'')
       (init_db None)
       [''Task A'', ''Task B'', ''Task C'', ''Task D'', ''Task E'', ''Task F'', ''Task G'',
        ''Task H'', ''Task I'', ''Task J'', ''Task K'', ''Task L'']"

section \<open>Properties of the extractor\<close>

lemma append_step_eq:
  "append_step line plan =
     Inr (if CHR ''.'' \<in> set (take 10 line)
             \<and> 10 < length (strip (tl (dropWhile (\<lambda>c. c \<noteq> CHR ''.'') line)))
          then plan @ [strip (tl (dropWhile (\<lambda>c. c \<noteq> CHR ''.'') line))]
          else plan)"
proof (cases "CHR ''.'' \<in> set (take 10 line)")
  case True
  then have "CHR ''.'' \<in> set line"
    by (meson in_set_takeD)
  with True show ?thesis
    by (auto simp: append_step_def py_split1_def getitem_def Let_def)
next
  case False
  then show ?thesis
    by (simp add: append_step_def)
qed

lemma scan_step:
  "scan (l # ls) plan =
     (if well_formed l
      then (if 4 \<le> length plan then Inr (plan @ [step_text_of l])
            else scan ls (plan @ [step_text_of l]))
      else if strip l \<noteq> [] \<and> isdigit (hd (strip l)) \<and> 5 < length (strip l)
              \<and> 5 \<le> length plan
           then Inr plan
           else scan ls plan)"
  by (cases "strip l")
     (auto simp: well_formed_def step_text_of_def append_step_eq getitem_def Let_def)

declare scan.simps(2) [simp del]

lemma scan_eq_take:
  "length plan < 5 \<Longrightarrow>
     scan ls plan = Inr (take 5 (plan @ map step_text_of (filter well_formed ls)))"
proof (induction ls arbitrary: plan)
  case Nil
  then show ?case by simp
next
  case (Cons l ls)
  show ?case
  proof (cases "well_formed l")
    case True
    show ?thesis
    proof (cases "4 \<le> length plan")
      case True
      with Cons.prems have "length plan = 4" by simp
      with \<open>well_formed l\<close> show ?thesis
        by (simp add: scan_step)
    next
      case False
      then have "length (plan @ [step_text_of l]) < 5" by simp
      from Cons.IH [OF this] False \<open>well_formed l\<close> show ?thesis
        by (simp add: scan_step)
    qed
  next
    case False
    with Cons.prems Cons.IH [of plan] show ?thesis
      by (simp add: scan_step)
  qed
qed

lemma pad_eq: "pad plan = plan @ replicate (3 - length plan) filler"
proof (induction plan rule: pad.induct)
  case (1 plan)
  show ?case
  proof (cases "length plan < 3")
    case True
    then have "3 - length plan = Suc (3 - length (plan @ [filler]))"
      by simp
    with True "1.IH" show ?thesis
      by (subst pad.simps) (simp add: replicate_app_Cons_same)
  next
    case False
    then show ?thesis
      by (subst pad.simps) simp
  qed
qed

lemma scan_single:
  "scan [l] [] = Inr (if well_formed l then [step_text_of l] else [])"
  by (simp add: scan_eq_take)

lemma extract_plan_eq:
  "extract_plan plan_text =
     Inr (pad (take 5 (map step_text_of (filter well_formed (py_split nl plan_text)))))"
  by (simp add: extract_plan_def scan_eq_take)

subsection \<open>Stripping the text does not change its steps\<close>

lemma rstrip_Nil_iff: "rstrip s = [] \<longleftrightarrow> (\<forall>c \<in> set s. isspace c)"
  by (simp add: rstrip_def dropWhile_eq_Nil_conv)

lemma rstrip_Cons:
  "rstrip (c # cs) = (if isspace c \<and> rstrip cs = [] then [] else c # rstrip cs)"
proof (cases "\<forall>x \<in> set cs. isspace x")
  case True
  then show ?thesis
    by (simp add: rstrip_def dropWhile_append)
next
  case False
  then have "rstrip cs \<noteq> []"
    by (simp add: rstrip_Nil_iff)
  with False show ?thesis
    by (auto simp: rstrip_def dropWhile_append)
qed

lemma rstrip_Nil [simp]: "rstrip [] = []"
  by (simp add: rstrip_def)

lemma strip_Nil [simp]: "strip [] = []"
  by (simp add: strip_def lstrip_def)

lemma strip_eq_lstrip_rstrip: "strip s = lstrip (rstrip s)"
proof (induction s)
  case Nil
  then show ?case by (simp add: lstrip_def rstrip_def)
next
  case (Cons c cs)
  show ?case
  proof (cases "isspace c")
    case True
    then have "strip (c # cs) = strip cs"
      by (simp add: strip_def lstrip_def)
    also have "\<dots> = lstrip (rstrip cs)"
      by (rule Cons.IH)
    also have "\<dots> = lstrip (rstrip (c # cs))"
      using True by (simp add: rstrip_Cons lstrip_def)
    finally show ?thesis .
  next
    case False
    then show ?thesis
      by (simp add: strip_def lstrip_def rstrip_Cons)
  qed
qed

lemma strip_space_Cons: "isspace c \<Longrightarrow> strip (c # l) = strip l"
  by (simp add: strip_def lstrip_def)

lemma py_split_not_Nil [simp]: "py_split sep s \<noteq> []"
  by (induction s) (auto split: list.splits)

lemma py_split_Cons:
  "py_split sep (c # cs) =
     (if c = sep then [] # py_split sep cs
      else (c # hd (py_split sep cs)) # tl (py_split sep cs))"
  by (cases "py_split sep cs") auto

lemma isspace_nl [simp]: "isspace nl"
  by (simp add: isspace_def nl_def)

lemma lines_lstrip:
  "filter (\<lambda>l. l \<noteq> []) (map strip (py_split nl (lstrip s))) =
   filter (\<lambda>l. l \<noteq> []) (map strip (py_split nl s))"
proof (induction s)
  case Nil
  then show ?case by (simp add: lstrip_def)
next
  case (Cons c cs)
  show ?case
  proof (cases "isspace c")
    case True
    then have "lstrip (c # cs) = lstrip cs"
      by (simp add: lstrip_def)
    moreover have "filter (\<lambda>l. l \<noteq> []) (map strip (py_split nl (c # cs))) =
        filter (\<lambda>l. l \<noteq> []) (map strip (py_split nl cs))"
    proof (cases "c = nl")
      case True
      then show ?thesis by simp
    next
      case False
      have "map strip (py_split nl (c # cs)) = map strip (py_split nl cs)"
        using False \<open>isspace c\<close>
        by (cases "py_split nl cs") (auto simp: strip_space_Cons)
      then show ?thesis by simp
    qed
    ultimately show ?thesis
      using Cons.IH by simp
  next
    case False
    then show ?thesis
      by (simp add: lstrip_def)
  qed
qed

lemma rstrip_space_lines:
  "\<forall>c \<in> set s. isspace c \<Longrightarrow> map rstrip (py_split nl s) = replicate (length (py_split nl s)) []"
proof (induction s)
  case Nil
  then show ?case by simp
next
  case (Cons c cs)
  then have IH: "map rstrip (py_split nl cs) = replicate (length (py_split nl cs)) []"
    by simp
  obtain x xs where x: "py_split nl cs = x # xs"
    by (cases "py_split nl cs") auto
  with IH have "rstrip x = []" and xs: "map rstrip xs = replicate (length xs) []"
    by auto
  show ?case
  proof (cases "c = nl")
    case True
    then show ?thesis
      using IH by simp
  next
    case False
    with Cons.prems \<open>rstrip x = []\<close> xs x show ?thesis
      by (simp add: rstrip_Cons)
  qed
qed

lemma lines_rstrip:
  "\<exists>k. map rstrip (py_split nl s) = map rstrip (py_split nl (rstrip s)) @ replicate k []"
proof (induction s)
  case Nil
  then show ?case by simp
next
  case (Cons c cs)
  show ?case
  proof (cases "isspace c \<and> rstrip cs = []")
    case True
    then have sp: "\<forall>x \<in> set (c # cs). isspace x"
      by (simp add: rstrip_Nil_iff)
    have "rstrip (c # cs) = []"
      using True by (simp add: rstrip_Cons)
    moreover have "map rstrip (py_split nl (c # cs)) =
        [] # replicate (length (py_split nl (c # cs)) - 1) []"
      using rstrip_space_lines [OF sp]
      by (cases "py_split nl (c # cs)") (auto simp del: py_split.simps)
    ultimately have "map rstrip (py_split nl (c # cs)) =
        map rstrip (py_split nl (rstrip (c # cs))) @
          replicate (length (py_split nl (c # cs)) - 1) []"
      by simp
    then show ?thesis ..
  next
    case False
    then have r: "rstrip (c # cs) = c # rstrip cs"
      by (simp add: rstrip_Cons)
    from Cons.IH obtain k where
      k: "map rstrip (py_split nl cs) = map rstrip (py_split nl (rstrip cs)) @ replicate k []"
      by blast
    show ?thesis
    proof (cases "c = nl")
      case True
      with k r show ?thesis by simp
    next
      case False
      obtain x xs where x: "py_split nl cs = x # xs"
        by (cases "py_split nl cs") auto
      obtain y ys where y: "py_split nl (rstrip cs) = y # ys"
        by (cases "py_split nl (rstrip cs)") auto
      from k x y have "rstrip x = rstrip y" and "map rstrip xs = map rstrip ys @ replicate k []"
        by auto
      with False r x y show ?thesis
        by (auto simp: rstrip_Cons)
    qed
  qed
qed

lemma lines_strip:
  "filter (\<lambda>l. l \<noteq> []) (map strip (py_split nl (strip s))) =
   filter (\<lambda>l. l \<noteq> []) (map strip (py_split nl s))"
proof -
  have *: "filter (\<lambda>l. l \<noteq> []) (map strip (py_split nl (rstrip u))) =
      filter (\<lambda>l. l \<noteq> []) (map strip (py_split nl u))" for u
  proof -
    obtain k where
      k: "map rstrip (py_split nl u) = map rstrip (py_split nl (rstrip u)) @ replicate k []"
      using lines_rstrip by blast
    have m: "map strip ls = map lstrip (map rstrip ls)" for ls
      by (simp add: strip_eq_lstrip_rstrip)
    then have "filter (\<lambda>l. l \<noteq> []) (map strip (py_split nl u)) =
        filter (\<lambda>l. l \<noteq> []) (map lstrip (map rstrip (py_split nl (rstrip u)) @ replicate k []))"
      using k by metis
    also have "\<dots> = filter (\<lambda>l. l \<noteq> []) (map lstrip (map rstrip (py_split nl (rstrip u))))"
      by (simp add: lstrip_def)
    also have "\<dots> = filter (\<lambda>l. l \<noteq> []) (map strip (py_split nl (rstrip u)))"
      by (simp only: m)
    finally show ?thesis by simp
  qed
  show ?thesis
    unfolding strip_def [of s] by (simp only: * lines_lstrip)
qed

lemma steps_of_stripped:
  "map step_text_of (filter well_formed ls) =
     map (\<lambda>t. strip (tl (dropWhile (\<lambda>c. c \<noteq> CHR ''.'') t)))
       (filter (\<lambda>t. isdigit (hd t) \<and> 5 < length t \<and> CHR ''.'' \<in> set (take 10 t)
                  \<and> 10 < length (strip (tl (dropWhile (\<lambda>c. c \<noteq> CHR ''.'') t))))
          (filter (\<lambda>l. l \<noteq> []) (map strip ls)))"
  by (induction ls) (auto simp: well_formed_def step_text_of_def Let_def)

lemma steps_strip:
  "map step_text_of (filter well_formed (py_split nl (strip s))) =
   map step_text_of (filter well_formed (py_split nl s))"
  by (simp only: steps_of_stripped lines_strip)

text \<open>Stripping the whole completion first, as the source does, changes nothing.\<close>

lemma planner_plan_eq: "planner_plan content = extract_plan content"
  by (simp add: planner_plan_def extract_plan_eq steps_strip)

subsection \<open>The claims on the extractor\<close>

lemma length_pad:
  "3 \<le> length (pad plan) \<and> (length plan \<le> 5 \<longrightarrow> length (pad plan) \<le> 5)"
  unfolding pad_eq length_append length_replicate by arith

text \<open>
  C3. The scenario of the specification: on the completion
  \<open>1. Set up cloud infra\<close>, \<open>2. Configure CI/CD\<close>, \<open>3. Build dashboard UI\<close>, \<open>4. Add auth\<close>,
  \<open>5. Deploy to staging\<close> (one per line) the extractor is said to return the five steps.
  It does not: the step \<open>Add auth\<close> has 8 characters, and a step is kept only when it
  has more than 10.
\<close>

theorem saas_scenario_not_five_steps:
  "planner_plan saas_completion \<noteq>
     Inr [''Set up cloud infra'', ''Configure CI/CD'', ''Build dashboard UI'', ''Add auth'',
          ''Deploy to staging'']"
  by code_simp

text \<open>
  C3, as amended: on that completion the extractor returns the four steps
  \<open>Set up cloud infra\<close>, \<open>Configure CI/CD\<close>, \<open>Build dashboard UI\<close> and
  \<open>Deploy to staging\<close>, in that order, and no filler.
\<close>

theorem saas_scenario_four_steps:
  "planner_plan saas_completion =
     Inr [''Set up cloud infra'', ''Configure CI/CD'', ''Build dashboard UI'',
          ''Deploy to staging''] \<and>
   extract_plan saas_completion =
     Inr [''Set up cloud infra'', ''Configure CI/CD'', ''Build dashboard UI'',
          ''Deploy to staging'']"
  by code_simp

text \<open>
  C4, as stated, has three filler steps for every text without a well-formed line.
  With a well-formed line taken in the words of the specification, led by a decimal
  digit, the line below is not well formed; but the loop tests its first character,
  U+00B2, with \<open>isdigit\<close> and accepts the line, so the plan has one real step and two
  fillers.
\<close>

theorem superscript_line_is_a_step:
  "filter well_formed_decimal (py_split nl superscript_line) = [] \<and>
   planner_plan superscript_line =
     Inr [''Square the input'', ''Review and validate implementation'',
          ''Review and validate implementation''] \<and>
   planner_plan superscript_line \<noteq>
     Inr [''Review and validate implementation'', ''Review and validate implementation'',
          ''Review and validate implementation'']"
  by code_simp

text \<open>
  C4, as amended: for every text the extraction returns (it is a total function and
  takes no error branch) a plan of at least 3 and at most 5 steps; on a text without a
  line that the loop accepts, that is without a well-formed line whose first character
  is a digit in the sense of \<open>isdigit\<close>, the plan is exactly three times the filler
  \<open>Review and validate implementation\<close>. This holds of the plan that the planner
  computes from the completion, which it strips first, and the extractor gives the same
  plan on the completion as it is.
\<close>

theorem extract_plan_three_to_five:
  "(\<exists>plan. planner_plan text = Inr plan \<and> 3 \<le> length plan \<and> length plan \<le> 5) \<and>
   extract_plan text = planner_plan text \<and>
   (filter well_formed (py_split nl text) = [] \<longrightarrow>
      planner_plan text =
        Inr [''Review and validate implementation'', ''Review and validate implementation'',
             ''Review and validate implementation''])"
proof (intro conjI)
  show "\<exists>plan. planner_plan text = Inr plan \<and> 3 \<le> length plan \<and> length plan \<le> 5"
    using length_pad [of "take 5 (map step_text_of (filter well_formed (py_split nl text)))"]
    by (simp add: planner_plan_eq extract_plan_eq)
  show "extract_plan text = planner_plan text"
    by (simp add: planner_plan_eq)
  show "filter well_formed (py_split nl text) = [] \<longrightarrow>
      planner_plan text =
        Inr [''Review and validate implementation'', ''Review and validate implementation'',
             ''Review and validate implementation'']"
    by (simp add: planner_plan_eq extract_plan_eq pad_eq numeral_3_eq_3 filler_def)
qed

text \<open>Witness for C4: a refusal, which has no well-formed line.\<close>

theorem extract_plan_three_to_five_witness:
  "filter well_formed (py_split nl refusal_completion) = [] \<and>
   planner_plan refusal_completion =
     Inr [''Review and validate implementation'', ''Review and validate implementation'',
          ''Review and validate implementation'']"
proof -
  have "filter well_formed (py_split nl refusal_completion) = []"
    by code_simp
  with extract_plan_three_to_five [of refusal_completion] show ?thesis
    by blast
qed

text \<open>
  C5, as stated, takes a well-formed line to start with a decimal digit. The source
  tests the first character with \<open>isdigit\<close>, which also holds of the superscript digits.
  The text below has six lines that are well formed in the sense of the claim, after a
  line that starts with U+00B2; the extractor takes its first step from that line, so
  its plan is not made of the first five lines the claim counts.
\<close>

theorem superscript_line_accepted:
  "5 \<le> length (filter well_formed_decimal (py_split nl superscript_completion)) \<and>
   planner_plan superscript_completion \<noteq>
     Inr (map step_text_of
            (take 5 (filter well_formed_decimal (py_split nl superscript_completion))))"
  by code_simp

text \<open>
  C5, as amended: with the first character of a well-formed line being a digit in the
  sense of \<open>isdigit\<close> (a decimal digit or a superscript digit), every text with at least
  5 well-formed lines yields exactly the steps of its first 5 well-formed lines, in the
  order of the lines, each step being the trimmed text after the first \<open>.\<close> of its line.
  The lines after the fifth accepted one play no part: whenever the lines are
  \<open>pre @ rest\<close> and \<open>pre\<close> holds 5 well-formed lines, the plan is read off \<open>pre\<close>.
\<close>

theorem extract_plan_first_five:
  assumes "5 \<le> length (filter well_formed (py_split nl text))"
  shows "planner_plan text =
           Inr (map step_text_of (take 5 (filter well_formed (py_split nl text)))) \<and>
         extract_plan text = planner_plan text \<and>
         (\<forall>pre rest.
            py_split nl text = pre @ rest \<and> 5 \<le> length (filter well_formed pre) \<longrightarrow>
            planner_plan text = Inr (map step_text_of (take 5 (filter well_formed pre))))"
proof -
  have *: "pad (take 5 (map step_text_of ls)) = map step_text_of (take 5 ls)"
    if "5 \<le> length ls" for ls
    using that by (simp add: pad_eq take_map)
  show ?thesis
    using assms by (auto simp: planner_plan_eq extract_plan_eq *)
qed

text \<open>
  Witness for C5: a completion of six numbered lines; its first five lines hold five
  well-formed lines, and the sixth is not looked at.
\<close>

theorem extract_plan_first_five_witness:
  "5 \<le> length (filter well_formed (py_split nl six_step_completion)) \<and>
   py_split nl six_step_completion =
     take 5 (py_split nl six_step_completion) @ [''6. Monitor the rollout''] \<and>
   5 \<le> length (filter well_formed (take 5 (py_split nl six_step_completion))) \<and>
   planner_plan six_step_completion =
     Inr [''Collect requirements'', ''Design the schema'', ''Implement the service'',
          ''Write the tests'', ''Deploy to staging'']"
proof -
  have h: "5 \<le> length (filter well_formed (py_split nl six_step_completion))"
    by code_simp
  have p: "py_split nl six_step_completion =
      take 5 (py_split nl six_step_completion) @ [''6. Monitor the rollout'']"
    by code_simp
  have q: "5 \<le> length (filter well_formed (take 5 (py_split nl six_step_completion)))"
    by code_simp
  have e: "map step_text_of (take 5 (filter well_formed (take 5 (py_split nl six_step_completion))))
      = [''Collect requirements'', ''Design the schema'', ''Implement the service'',
         ''Write the tests'', ''Deploy to staging'']"
    by code_simp
  from extract_plan_first_five [OF h] p q
  have "planner_plan six_step_completion =
      Inr (map step_text_of (take 5 (filter well_formed (take 5 (py_split nl six_step_completion)))))"
    by blast
  with h p q e show ?thesis
    by simp
qed

text \<open>
  C6, as stated, has a text with exactly two well-formed lines yield their two steps and
  one filler. With a well-formed line taken in the words of the specification, led by a
  decimal digit, the text below has exactly two; the loop also accepts its first line,
  led by U+00B2, so the plan has three real steps and no filler.
\<close>

theorem superscript_line_takes_the_place_of_filler:
  "filter well_formed_decimal (py_split nl superscript_two_completion) =
     [''1. Write the parser'', ''2. Measure the results''] \<and>
   planner_plan superscript_two_completion =
     Inr [''Square the input'', ''Write the parser'', ''Measure the results''] \<and>
   planner_plan superscript_two_completion \<noteq>
     Inr [''Write the parser'', ''Measure the results'',
          ''Review and validate implementation'']"
  by code_simp

text \<open>
  C6, as amended: the plan is the list of the steps accepted by the scan followed by as
  many copies of the filler \<open>Review and validate implementation\<close> as are missing to make
  3: exactly 3 elements when fewer than 3 steps were accepted, and no filler when 3 or
  more were. With a well-formed line being one that the scan accepts (its first
  character a digit in the sense of \<open>isdigit\<close>), a text without a well-formed line
  yields three fillers, and a text with exactly two well-formed lines yields their two
  steps followed by one filler.
\<close>

theorem extract_plan_filler:
  "(\<exists>steps. scan (py_split nl (strip text)) [] = Inr steps \<and>
      planner_plan text =
        Inr (steps @ replicate (3 - length steps) ''Review and validate implementation'') \<and>
      (length steps < 3 \<longrightarrow>
         length (steps @ replicate (3 - length steps) ''Review and validate implementation'')
           = 3) \<and>
      (3 \<le> length steps \<longrightarrow> planner_plan text = Inr steps)) \<and>
   extract_plan text = planner_plan text \<and>
   (filter well_formed (py_split nl text) = [] \<longrightarrow>
      planner_plan text =
        Inr [''Review and validate implementation'', ''Review and validate implementation'',
             ''Review and validate implementation'']) \<and>
   (\<forall>a b. filter well_formed (py_split nl text) = [a, b] \<longrightarrow>
      planner_plan text =
        Inr [step_text_of a, step_text_of b, ''Review and validate implementation''])"
proof (intro conjI)
  show "\<exists>steps. scan (py_split nl (strip text)) [] = Inr steps \<and>
      planner_plan text =
        Inr (steps @ replicate (3 - length steps) ''Review and validate implementation'') \<and>
      (length steps < 3 \<longrightarrow>
         length (steps @ replicate (3 - length steps) ''Review and validate implementation'')
           = 3) \<and>
      (3 \<le> length steps \<longrightarrow> planner_plan text = Inr steps)"
    by (simp add: planner_plan_def extract_plan_def scan_eq_take pad_eq filler_def)
  show "extract_plan text = planner_plan text"
    by (simp add: planner_plan_eq)
  show "filter well_formed (py_split nl text) = [] \<longrightarrow>
      planner_plan text =
        Inr [''Review and validate implementation'', ''Review and validate implementation'',
             ''Review and validate implementation'']"
    by (simp add: planner_plan_eq extract_plan_eq pad_eq numeral_3_eq_3 filler_def)
  show "\<forall>a b. filter well_formed (py_split nl text) = [a, b] \<longrightarrow>
      planner_plan text =
        Inr [step_text_of a, step_text_of b, ''Review and validate implementation'']"
    by (simp add: planner_plan_eq extract_plan_eq pad_eq filler_def)
qed

text \<open>
  Witness for C6: a refusal (no step, three fillers), a completion with two well-formed
  lines among five (two steps, one filler), and a completion with six (five steps, no
  filler).
\<close>

theorem extract_plan_filler_witness:
  "filter well_formed (py_split nl refusal_completion) = [] \<and>
   planner_plan refusal_completion =
     Inr [''Review and validate implementation'', ''Review and validate implementation'',
          ''Review and validate implementation''] \<and>
   filter well_formed (py_split nl two_step_completion) =
     [''1. Write the parser'', ''4. Measure the results''] \<and>
   scan (py_split nl (strip two_step_completion)) [] =
     Inr [''Write the parser'', ''Measure the results''] \<and>
   planner_plan two_step_completion =
     Inr [''Write the parser'', ''Measure the results'',
          ''Review and validate implementation''] \<and>
   scan (py_split nl (strip six_step_completion)) [] = planner_plan six_step_completion"
proof -
  have a: "filter well_formed (py_split nl refusal_completion) = []"
    by code_simp
  have b: "filter well_formed (py_split nl two_step_completion) =
      [''1. Write the parser'', ''4. Measure the results'']"
    by code_simp
  have c: "scan (py_split nl (strip two_step_completion)) [] =
      Inr [''Write the parser'', ''Measure the results'']"
    by code_simp
  have d: "step_text_of ''1. Write the parser'' = ''Write the parser''"
      "step_text_of ''4. Measure the results'' = ''Measure the results''"
    by code_simp+
  have e: "scan (py_split nl (strip six_step_completion)) [] =
      Inr [''Collect requirements'', ''Design the schema'', ''Implement the service'',
           ''Write the tests'', ''Deploy to staging'']"
    by code_simp
  from extract_plan_filler [of refusal_completion] a
  have 1: "planner_plan refusal_completion =
     Inr [''Review and validate implementation'', ''Review and validate implementation'',
          ''Review and validate implementation'']"
    by blast
  from extract_plan_filler [of two_step_completion] b d
  have 2: "planner_plan two_step_completion =
      Inr [''Write the parser'', ''Measure the results'',
           ''Review and validate implementation'']"
    by metis
  from extract_plan_filler [of six_step_completion] e
  have 3: "scan (py_split nl (strip six_step_completion)) [] = planner_plan six_step_completion"
    by auto
  from a b c 1 2 3 show ?thesis
    by blast
qed

section \<open>Properties of the decision store\<close>

lemma next_rowid_fresh: "next_rowid ids \<notin> set ids"
proof
  assume a: "next_rowid ids \<in> set ids"
  then have "ids \<noteq> []" by auto
  with a have "Max (set ids) + 1 \<in> set ids"
    by (simp add: next_rowid_def)
  then have "Max (set ids) + 1 \<le> Max (set ids)"
    by (intro Max_ge) auto
  then show False by simp
qed

lemma save_full_plan_tasks:
  "tasks (save_full_plan s task plan) =
     tasks s @ [\<lparr>t_id = next_rowid (map t_id (tasks s)), t_task = task,
                 t_plan = py_join CHR ''|'' plan, t_status = ''planned''\<rparr>]"
proof -
  have "\<forall>r \<in> set (tasks s). t_id r \<noteq> next_rowid (map t_id (tasks s))"
    using next_rowid_fresh [of "map t_id (tasks s)"] by (metis image_eqI list.set_map)
  then have "filter (\<lambda>r. t_id r \<noteq> next_rowid (map t_id (tasks s))) (tasks s) = tasks s"
    by (simp add: filter_id_conv)
  then show ?thesis
    by (simp add: save_full_plan_def Let_def)
qed

lemma delete_decision_subquery:
  "filter (\<lambda>r. d_id r = i) (sort_key d_id (filter (\<lambda>r. d_id r \<noteq> i) ds)) = []"
  by (simp add: filter_empty_conv)

lemma delete_decision_eq:
  "delete_decision s i =
     (if in_int64 i then Inr (s\<lparr>decisions := filter (\<lambda>r. d_id r \<noteq> i) (decisions s)\<rparr>)
      else Inl OverflowError)"
  by (simp add: delete_decision_def Let_def delete_decision_subquery)

text \<open>
  The primary key: the ids of the decisions are distinct in the empty store, and stay
  so under \<open>save_decision\<close>, \<open>save_full_plan\<close> and \<open>delete_decision\<close>.
\<close>

lemma init_db_distinct: "distinct (map d_id (decisions (init_db None)))"
  by (simp add: init_db_def)

lemma save_decision_distinct:
  assumes "distinct (map d_id (decisions s))"
  shows "distinct (map d_id (decisions (save_decision s now task decision reasoning)))"
  using assms next_rowid_fresh [of "map d_id (decisions s)"]
  by (simp add: save_decision_def)

lemma save_full_plan_decisions: "decisions (save_full_plan s task plan) = decisions s"
  by (simp add: save_full_plan_def Let_def)

lemma delete_decision_distinct:
  assumes "distinct (map d_id (decisions s))" and "delete_decision s i = Inr s'"
  shows "distinct (map d_id (decisions s'))"
  using assms by (auto simp: delete_decision_eq distinct_map_filter split: if_splits)

lemma py_split_no_sep: "sep \<notin> set x \<Longrightarrow> py_split sep x = [x]"
  by (induction x) auto

lemma py_split_append_sep:
  "sep \<notin> set x \<Longrightarrow> py_split sep (x @ sep # rest) = x # py_split sep rest"
  by (induction x) auto

lemma py_split_join:
  "plan \<noteq> [] \<Longrightarrow> \<forall>x \<in> set plan. sep \<notin> set x \<Longrightarrow> py_split sep (py_join sep plan) = plan"
  by (induction sep plan rule: py_join.induct) (auto simp: py_split_no_sep py_split_append_sep)

lemma py_split_pieces: "l \<in> set (py_split sep s) \<Longrightarrow> sep \<notin> set l"
  by (induction s arbitrary: l) (auto split: if_splits list.splits)

lemma get_task_plan_pieces: "x \<in> set (get_task_plan s task) \<Longrightarrow> CHR ''|'' \<notin> set x"
  by (auto simp: get_task_plan_def py_split_pieces split: list.splits)

lemma get_after_save:
  assumes "\<forall>r \<in> set (tasks s). t_task r \<noteq> task"
  shows "get_task_plan (save_full_plan s task plan) task =
           py_split CHR ''|'' (py_join CHR ''|'' plan)"
proof -
  from assms have "filter (\<lambda>r. t_task r = task) (tasks s) = []"
    by (simp add: filter_empty_conv)
  then show ?thesis
    by (simp add: get_task_plan_def filter_sort save_full_plan_tasks)
qed

text \<open>
  C1. The claim: \<open>delete(id)\<close> removes the decision and the plan stored for its task, so
  that the plan of that task is then empty. The source deletes the decision first and
  only then looks its task up, so the subquery finds nothing: whenever the call
  returns, the store differs from the one before in the table of decisions only, so
  the table of plans is never changed and every plan is still found. In the store left
  by one run of the planner, deleting decision 1 removes the decision and leaves the
  plan of its task in place.
\<close>

theorem delete_decision_leaves_task_plan:
  "delete_decision s decision_id =
     (if in_int64 decision_id
      then Inr (s\<lparr>decisions := filter (\<lambda>r. d_id r \<noteq> decision_id) (decisions s)\<rparr>)
      else Inl OverflowError) \<and>
   tasks (s\<lparr>decisions := ds\<rparr>) = tasks s \<and>
   get_task_plan (s\<lparr>decisions := ds\<rparr>) task = get_task_plan s task \<and>
   map d_id (decisions store_one) = [1] \<and>
   map d_task (decisions store_one) = [''Launch new SaaS dashboard''] \<and>
   delete_decision store_one 1 = Inr (store_one\<lparr>decisions := []\<rparr>) \<and>
   tasks (store_one\<lparr>decisions := []\<rparr>) = tasks store_one \<and>
   get_task_plan (store_one\<lparr>decisions := []\<rparr>) ''Launch new SaaS dashboard'' =
     [''Set up cloud infra'', ''Configure CI/CD'', ''Build dashboard UI'']"
proof -
  have "map d_id (decisions store_one) = [1] \<and>
   map d_task (decisions store_one) = [''Launch new SaaS dashboard''] \<and>
   delete_decision store_one 1 = Inr (store_one\<lparr>decisions := []\<rparr>) \<and>
   get_task_plan (store_one\<lparr>decisions := []\<rparr>) ''Launch new SaaS dashboard'' =
     [''Set up cloud infra'', ''Configure CI/CD'', ''Build dashboard UI'']"
    by code_simp
  then show ?thesis
    by (simp add: delete_decision_eq get_task_plan_def)
qed

text \<open>
  C2. The claim: a second \<open>upsert_plan\<close> for a task replaces the first. The column
  \<open>task\<close> is not unique, so \<open>INSERT OR REPLACE\<close> never finds a row to replace: two saves
  for one task add two rows, whatever the store held, and in the store built by two
  plans for one task the lookup returns the steps of the first plan.
\<close>

theorem save_full_plan_twice_keeps_both:
  "length (filter (\<lambda>r. t_task r = task)
       (tasks (save_full_plan (save_full_plan s task p1) task p2))) =
     length (filter (\<lambda>r. t_task r = task) (tasks s)) + 2 \<and>
   map t_plan (tasks store_two) =
     [''Set up cloud infra|Configure CI/CD|Build dashboard UI'',
      ''Write the parser|Measure the results|Review and validate implementation''] \<and>
   get_task_plan store_two ''Launch new SaaS dashboard'' =
     [''Set up cloud infra'', ''Configure CI/CD'', ''Build dashboard UI'']"
proof -
  have "map t_plan (tasks store_two) =
     [''Set up cloud infra|Configure CI/CD|Build dashboard UI'',
      ''Write the parser|Measure the results|Review and validate implementation''] \<and>
   get_task_plan store_two ''Launch new SaaS dashboard'' =
     [''Set up cloud infra'', ''Configure CI/CD'', ''Build dashboard UI'']"
    by code_simp
  then show ?thesis
    by (simp add: save_full_plan_tasks)
qed

text \<open>
  C8, as stated, has \<open>delete(id)\<close> succeed for every id that no stored decision has. The
  id 9223372036854775808, one above the signed 64-bit range, is not the id of a stored
  decision, and the call raises \<open>OverflowError\<close> when the id is bound to the first
  statement.
\<close>

theorem delete_decision_overflow:
  "9223372036854775808 \<notin> d_id ` set (decisions store_one) \<and>
   delete_decision store_one 9223372036854775808 = Inl OverflowError"
  by code_simp

text \<open>
  C8, as amended: when the id is in the signed 64-bit range and no stored decision has
  it, \<open>delete_decision\<close> returns without an error and the store is as it was, both
  tables unchanged; when the id is outside that range the call raises \<open>OverflowError\<close>.
\<close>

theorem delete_decision_absent_id:
  "(in_int64 decision_id \<and> decision_id \<notin> d_id ` set (decisions s) \<longrightarrow>
      delete_decision s decision_id = Inr s) \<and>
   (\<not> in_int64 decision_id \<longrightarrow> delete_decision s decision_id = Inl OverflowError)"
proof (intro conjI impI)
  assume a: "in_int64 decision_id \<and> decision_id \<notin> d_id ` set (decisions s)"
  then have "filter (\<lambda>r. d_id r \<noteq> decision_id) (decisions s) = decisions s"
    by (auto simp: filter_id_conv)
  with a show "delete_decision s decision_id = Inr s"
    by (simp add: delete_decision_eq)
next
  assume "\<not> in_int64 decision_id"
  then show "delete_decision s decision_id = Inl OverflowError"
    by (simp add: delete_decision_eq)
qed

text \<open>
  Witness for C8: the store of one decision, with id 1; the id 7, which is absent, and
  the id -9223372036854775809, one below the signed 64-bit range.
\<close>

theorem delete_decision_absent_id_witness:
  "in_int64 7 \<and> 7 \<notin> d_id ` set (decisions store_one) \<and>
   delete_decision store_one 7 = Inr store_one \<and>
   \<not> in_int64 (- 9223372036854775809) \<and>
   delete_decision store_one (- 9223372036854775809) = Inl OverflowError"
proof -
  have h: "in_int64 7" "7 \<notin> d_id ` set (decisions store_one)"
    by code_simp+
  have o: "\<not> in_int64 (- 9223372036854775809)"
    by (simp add: in_int64_def)
  from delete_decision_absent_id [of 7 store_one] h
  have 1: "delete_decision store_one 7 = Inr store_one"
    by blast
  from delete_decision_absent_id [of "- 9223372036854775809" store_one] o
  have 2: "delete_decision store_one (- 9223372036854775809) = Inl OverflowError"
    by blast
  from h o 1 2 show ?thesis
    by blast
qed

text \<open>
  C9. When the store has no plan for the task, a plan that is not empty and whose steps
  are not empty and have no \<open>|\<close> is read back as it was saved. A plan with a step that
  has a \<open>|\<close> is never read back as it was saved.
\<close>

theorem save_then_get_task_plan:
  "(plan \<noteq> [] \<and> (\<forall>r \<in> set (tasks s). t_task r \<noteq> task) \<and>
    (\<forall>x \<in> set plan. x \<noteq> [] \<and> CHR ''|'' \<notin> set x) \<longrightarrow>
      get_task_plan (save_full_plan s task plan) task = plan) \<and>
   ((\<exists>x \<in> set plan. CHR ''|'' \<in> set x) \<longrightarrow>
      get_task_plan (save_full_plan s task plan) task \<noteq> plan)"
proof (intro conjI impI)
  assume "plan \<noteq> [] \<and> (\<forall>r \<in> set (tasks s). t_task r \<noteq> task) \<and>
    (\<forall>x \<in> set plan. x \<noteq> [] \<and> CHR ''|'' \<notin> set x)"
  then show "get_task_plan (save_full_plan s task plan) task = plan"
    by (simp add: get_after_save py_split_join)
next
  assume "\<exists>x \<in> set plan. CHR ''|'' \<in> set x"
  then show "get_task_plan (save_full_plan s task plan) task \<noteq> plan"
    using get_task_plan_pieces by metis
qed

text \<open>
  Witness for C9: in the store of one plan, a plan of two steps for another task is read
  back as saved, and a plan with the step \<open>Build|Test\<close> is read back as two steps.
\<close>

theorem save_then_get_task_plan_witness:
  "''Onboard the intern'' \<notin> t_task ` set (tasks store_one) \<and>
   list_all (\<lambda>x. x \<noteq> [] \<and> CHR ''|'' \<notin> set x)
     [''Write the parser'', ''Measure the results''] \<and>
   get_task_plan
     (save_full_plan store_one ''Onboard the intern''
        [''Write the parser'', ''Measure the results''])
     ''Onboard the intern'' = [''Write the parser'', ''Measure the results''] \<and>
   CHR ''|'' \<in> set ''Build|Test'' \<and>
   get_task_plan (save_full_plan store_one ''Onboard the intern'' [''Build|Test''])
     ''Onboard the intern'' \<noteq> [''Build|Test'']"
proof -
  have a: "''Onboard the intern'' \<notin> t_task ` set (tasks store_one)"
    by code_simp
  then have a': "\<forall>r \<in> set (tasks store_one). t_task r \<noteq> ''Onboard the intern''"
    by (metis imageI)
  have b: "list_all (\<lambda>x. x \<noteq> [] \<and> CHR ''|'' \<notin> set x)
      [''Write the parser'', ''Measure the results'']"
    by simp
  then have b': "\<forall>x \<in> set [''Write the parser'', ''Measure the results''].
      x \<noteq> [] \<and> CHR ''|'' \<notin> set x"
    by simp
  have c: "CHR ''|'' \<in> set ''Build|Test''"
    by simp
  then have c': "\<exists>x \<in> set [''Build|Test'']. CHR ''|'' \<in> set x"
    by simp
  from save_then_get_task_plan
         [of "[''Write the parser'', ''Measure the results'']" store_one "''Onboard the intern''"]
       a' b'
  have 1: "get_task_plan
     (save_full_plan store_one ''Onboard the intern''
        [''Write the parser'', ''Measure the results''])
     ''Onboard the intern'' = [''Write the parser'', ''Measure the results'']"
    by blast
  from save_then_get_task_plan [of "[''Build|Test'']" store_one "''Onboard the intern''"] c'
  have 2: "get_task_plan (save_full_plan store_one ''Onboard the intern'' [''Build|Test''])
     ''Onboard the intern'' \<noteq> [''Build|Test'']"
    by blast
  from a b c 1 2 show ?thesis
    by blast
qed

section \<open>The filter and the order of \<open>get_recent_decisions\<close>\<close>

lemma c_str_id: "CHR 0x00 \<notin> set s \<Longrightarrow> c_str s = s"
  by (induction s) (auto simp: c_str_def)

lemma c_str_pattern:
  assumes "CHR 0x00 \<notin> set f"
  shows "c_str (''%'' @ f @ ''%'') = CHR ''%'' # f @ ''%''"
proof -
  from assms have "CHR 0x00 \<notin> set (''%'' @ f @ ''%'')"
    by simp
  then have "c_str (''%'' @ f @ ''%'') = ''%'' @ f @ ''%''"
    by (rule c_str_id)
  then show ?thesis
    by simp
qed

lemma like_chars_percent: "like_chars ''%'' t"
  by (induction t) auto

lemma like_chars_percent_Cons:
  "like_chars (CHR ''%'' # p) t = (\<exists>zs. suffix zs t \<and> like_chars p zs)"
proof (induction t)
  case Nil
  then show ?case by simp
next
  case (Cons c cs)
  then show ?case
    by (auto simp: suffix_Cons)
qed

lemma like_chars_literal_percent:
  "\<forall>c \<in> set f. c \<noteq> CHR ''%'' \<and> c \<noteq> CHR ''_'' \<Longrightarrow>
     like_chars (f @ ''%'') t = prefix (map ascii_lower f) (map ascii_lower t)"
proof (induction f arbitrary: t)
  case Nil
  then show ?case by (simp add: like_chars_percent)
next
  case (Cons p ps)
  then show ?case
    by (cases t) auto
qed

lemma like_chars_prefix_percent: "prefix f t \<Longrightarrow> like_chars (f @ ''%'') t"
proof (induction f arbitrary: t)
  case Nil
  then show ?case by (simp add: like_chars_percent)
next
  case (Cons p ps)
  from Cons.prems obtain cs where t: "t = p # cs" and "prefix ps cs"
    by (cases t) auto
  then have "like_chars (ps @ ''%'') cs"
    using Cons.IH by blast
  moreover from this have "like_chars (CHR ''%'' # ps @ ''%'') cs"
    unfolding like_chars_percent_Cons by blast
  ultimately show ?case
    using t by simp
qed

lemma like_contains:
  assumes "sublist f t" and "CHR 0x00 \<notin> set t"
  shows "like (''%'' @ f @ ''%'') t"
proof -
  from assms have "CHR 0x00 \<notin> set f"
    by (auto simp: sublist_def)
  with assms show ?thesis
    by (auto simp: like_def c_str_id c_str_pattern like_chars_percent_Cons sublist_altdef'
          intro: like_chars_prefix_percent)
qed

lemma like_literal:
  assumes "\<forall>c \<in> set f. c \<noteq> CHR ''%'' \<and> c \<noteq> CHR ''_'' \<and> c \<noteq> CHR 0x00"
  shows "like (''%'' @ f @ ''%'') t = sublist (map ascii_lower f) (map ascii_lower (c_str t))"
proof -
  from assms have n: "CHR 0x00 \<notin> set f"
    by blast
  from assms have w: "\<forall>c \<in> set f. c \<noteq> CHR ''%'' \<and> c \<noteq> CHR ''_''"
    by blast
  have "like (''%'' @ f @ ''%'') t =
      (\<exists>zs. suffix zs (c_str t) \<and> prefix (map ascii_lower f) (map ascii_lower zs))"
    unfolding like_def c_str_pattern [OF n]
    using w by (simp add: like_chars_percent_Cons like_chars_literal_percent)
  also have "\<dots> =
      (\<exists>ys. suffix ys (map ascii_lower (c_str t)) \<and> prefix (map ascii_lower f) ys)"
    by (metis map_mono_suffix suffix_map_rightE)
  finally show ?thesis
    by (simp add: sublist_altdef')
qed

lemma strict_desc_distinct:
  "sorted_wrt (\<lambda>a b. d_id b < d_id a) xs \<Longrightarrow> distinct (map d_id xs)"
  by (induction xs) auto

lemma newest_subset:
  assumes xs: "newest n cands xs" and ys: "newest n cands ys"
  shows "set xs \<subseteq> set ys"
proof (rule ccontr)
  assume "\<not> set xs \<subseteq> set ys"
  then obtain x where x: "x \<in> set xs" "x \<notin> set ys"
    by blast
  from xs have "distinct (map d_id xs)"
    by (simp add: newest_def strict_desc_distinct)
  then have dx: "distinct xs"
    by (simp add: distinct_map)
  from ys have "distinct (map d_id ys)"
    by (simp add: newest_def strict_desc_distinct)
  then have dy: "distinct ys"
    by (simp add: distinct_map)
  from xs ys have "length xs = length ys"
    by (simp add: newest_def)
  with dx dy have c: "card (set xs) = card (set ys)"
    by (simp add: distinct_card)
  have "\<exists>y. y \<in> set ys \<and> y \<notin> set xs"
  proof (rule ccontr)
    assume "\<not> (\<exists>y. y \<in> set ys \<and> y \<notin> set xs)"
    then have "set ys \<subseteq> set xs"
      by blast
    with c have "set ys = set xs"
      by (simp add: card_subset_eq)
    with x show False
      by simp
  qed
  then obtain y where y: "y \<in> set ys" "y \<notin> set xs"
    by blast
  from ys y have "y \<in> set cands"
    by (auto simp: newest_def)
  with xs y x have "d_id y < d_id x"
    by (simp add: newest_def)
  moreover from xs x have "x \<in> set cands"
    by (auto simp: newest_def)
  with ys x y have "d_id x < d_id y"
    by (simp add: newest_def)
  ultimately show False
    by simp
qed

lemma newest_unique:
  assumes xs: "newest n cands xs" and ys: "newest n cands ys"
  shows "xs = ys"
proof -
  have s: "set xs = set ys"
    using newest_subset [OF xs ys] newest_subset [OF ys xs] by blast
  have sorted_ids: "sorted (rev (map d_id zs)) \<and> distinct (rev (map d_id zs))"
    if "newest n cands zs" for zs
  proof -
    from that have "sorted_wrt (\<lambda>a b. d_id b < d_id a) zs"
      by (simp add: newest_def)
    then have "sorted_wrt (<) (rev (map d_id zs))"
      by (simp add: sorted_wrt_rev sorted_wrt_map)
    then show ?thesis
      by (simp add: strict_sorted_iff)
  qed
  from s have "set (rev (map d_id xs)) = set (rev (map d_id ys))"
    by simp
  with sorted_ids [OF xs] sorted_ids [OF ys] have "rev (map d_id xs) = rev (map d_id ys)"
    by (metis sorted_distinct_set_unique)
  then have m: "map d_id xs = map d_id ys"
    by simp
  from sorted_ids [OF xs] have "inj_on d_id (set xs)"
    by (simp add: distinct_map)
  with s have "inj_on d_id (set xs \<union> set ys)"
    by simp
  with m show ?thesis
    by (simp add: inj_on_map_eq_map)
qed

lemma newest_take:
  assumes "distinct (map d_id cands)"
  shows "newest n cands (take n (rev (sort_key d_id cands)))"
proof -
  let ?L = "rev (sort_key d_id cands)"
  from assms have "distinct (map d_id (sort_key d_id cands))"
    by (simp add: distinct_map)
  with sorted_sort_key [of d_id cands] have "sorted_wrt (<) (map d_id (sort_key d_id cands))"
    by (simp add: strict_sorted_iff)
  then have s: "sorted_wrt (\<lambda>a b. d_id b < d_id a) ?L"
    by (simp add: sorted_wrt_rev sorted_wrt_map)
  then have "sorted_wrt (\<lambda>a b. d_id b < d_id a) (take n ?L @ drop n ?L)"
    by simp
  then have *: "\<forall>x \<in> set (take n ?L). \<forall>y \<in> set (drop n ?L). d_id y < d_id x"
    unfolding sorted_wrt_append by blast
  have "set cands = set (take n ?L) \<union> set (drop n ?L)"
    by (metis append_take_drop_id set_append set_rev set_sort)
  with * have "\<forall>r \<in> set cands. r \<notin> set (take n ?L) \<longrightarrow>
      (\<forall>x \<in> set (take n ?L). d_id r < d_id x)"
    by blast
  moreover have "set (take n ?L) \<subseteq> set cands"
    using set_take_subset [of n ?L] by simp
  moreover have "sorted_wrt (\<lambda>a b. d_id b < d_id a) (take n ?L)"
    using s by (rule sorted_wrt_take)
  ultimately show ?thesis
    by (simp add: newest_def)
qed

text \<open>
  C7, as stated, has the filtered query return decisions whose task contains the first
  30 characters of the filter as a substring. The query matches with \<open>LIKE\<close>: the
  filter \<open>saas\<close> returns the decision for \<open>Launch new SaaS dashboard\<close>, and the filter
  \<open>CI_CD\<close> the one for \<open>Configure CI/CD for the SAAS\<close>, and neither task contains its
  filter.
\<close>

theorem like_is_not_substring:
  "map d_task (get_recent_decisions (Some ''saas'') store_one) =
     [''Launch new SaaS dashboard''] \<and>
   \<not> sublist (take 30 ''saas'') ''Launch new SaaS dashboard'' \<and>
   map d_task (get_recent_decisions (Some ''CI_CD'') store_seven) =
     [''Configure CI/CD for the SAAS''] \<and>
   \<not> sublist (take 30 ''CI_CD'') ''Configure CI/CD for the SAAS''"
  by code_simp

text \<open>
  C7, as amended. In a store whose decisions have distinct ids (the primary key): with
  a filter that is not empty, the result is the 5 most recent, by descending id, of the
  decisions whose task matches, under \<open>LIKE\<close>, the pattern made of \<open>%\<close>, the first 30
  characters of the filter and \<open>%\<close>, and it is the only such list; with no filter it is
  the 10 most recent of all decisions, and the only such list. In every store the
  filtered result is empty when no task matches. As for the match: a task without
  U+0000 that contains the first 30 characters of the filter matches; and when these
  characters have no \<open>%\<close>, no \<open>_\<close> and no U+0000, the tasks that match are those whose
  text up to its first U+0000 contains them up to the case of the ASCII letters.
\<close>

theorem get_recent_decisions_like:
  "(distinct (map d_id (decisions s)) \<and> f \<noteq> [] \<longrightarrow>
      newest 5
        (filter (\<lambda>r. like (''%'' @ take 30 f @ ''%'') (d_task r)) (decisions s))
        (get_recent_decisions (Some f) s) \<and>
      (\<forall>res.
         newest 5
           (filter (\<lambda>r. like (''%'' @ take 30 f @ ''%'') (d_task r)) (decisions s)) res \<longrightarrow>
         res = get_recent_decisions (Some f) s)) \<and>
   (f \<noteq> [] \<and> (\<forall>r \<in> set (decisions s). \<not> like (''%'' @ take 30 f @ ''%'') (d_task r)) \<longrightarrow>
      get_recent_decisions (Some f) s = []) \<and>
   (distinct (map d_id (decisions s)) \<longrightarrow>
      newest 10 (decisions s) (get_recent_decisions None s) \<and>
      (\<forall>res. newest 10 (decisions s) res \<longrightarrow> res = get_recent_decisions None s)) \<and>
   (sublist (take 30 f) t \<and> CHR 0x00 \<notin> set t \<longrightarrow> like (''%'' @ take 30 f @ ''%'') t) \<and>
   ((\<forall>c \<in> set (take 30 f). c \<noteq> CHR ''%'' \<and> c \<noteq> CHR ''_'' \<and> c \<noteq> CHR 0x00) \<longrightarrow>
      like (''%'' @ take 30 f @ ''%'') t =
        sublist (map ascii_lower (take 30 f)) (map ascii_lower (c_str t)))"
proof (intro conjI impI allI)
  let ?M = "filter (\<lambda>r. like (''%'' @ take 30 f @ ''%'') (d_task r)) (decisions s)"
  assume a: "distinct (map d_id (decisions s)) \<and> f \<noteq> []"
  then have "distinct (map d_id ?M)"
    by (simp add: distinct_map_filter)
  then have "newest 5 ?M (take 5 (rev (sort_key d_id ?M)))"
    by (rule newest_take)
  with a show n: "newest 5 ?M (get_recent_decisions (Some f) s)"
    by (simp add: get_recent_decisions_def)
  fix res
  assume "newest 5 ?M res"
  then show "res = get_recent_decisions (Some f) s"
    using n by (rule newest_unique)
next
  assume "f \<noteq> [] \<and>
      (\<forall>r \<in> set (decisions s). \<not> like (''%'' @ take 30 f @ ''%'') (d_task r))"
  then have "f \<noteq> []"
    and "filter (\<lambda>r. like (''%'' @ take 30 f @ ''%'') (d_task r)) (decisions s) = []"
    by (simp_all add: filter_empty_conv)
  then show "get_recent_decisions (Some f) s = []"
    by (simp add: get_recent_decisions_def)
next
  assume "distinct (map d_id (decisions s))"
  then have "newest 10 (decisions s) (take 10 (rev (sort_key d_id (decisions s))))"
    by (rule newest_take)
  then show n: "newest 10 (decisions s) (get_recent_decisions None s)"
    by (simp add: get_recent_decisions_def)
  fix res
  assume "newest 10 (decisions s) res"
  then show "res = get_recent_decisions None s"
    using n by (rule newest_unique)
next
  assume "sublist (take 30 f) t \<and> CHR 0x00 \<notin> set t"
  then have "sublist (take 30 f) t" and "CHR 0x00 \<notin> set t"
    by blast+
  then show "like (''%'' @ take 30 f @ ''%'') t"
    by (rule like_contains)
next
  assume "\<forall>c \<in> set (take 30 f). c \<noteq> CHR ''%'' \<and> c \<noteq> CHR ''_'' \<and> c \<noteq> CHR 0x00"
  then show "like (''%'' @ take 30 f @ ''%'') t =
        sublist (map ascii_lower (take 30 f)) (map ascii_lower (c_str t))"
    by (rule like_literal)
qed

text \<open>
  Witness for C7: in the store of seven decisions, six tasks match the filter \<open>saas\<close>
  and the five most recent of them are returned; no task matches \<open>zebra\<close>.
\<close>

theorem get_recent_decisions_like_witness:
  "distinct (map d_id (decisions store_seven)) \<and> ''saas'' \<noteq> [] \<and>
   map d_id (get_recent_decisions (Some ''saas'') store_seven) = [7, 6, 5, 4, 2] \<and>
   newest 5
     (filter (\<lambda>r. like (''%'' @ take 30 ''saas'' @ ''%'') (d_task r)) (decisions store_seven))
     (get_recent_decisions (Some ''saas'') store_seven) \<and>
   ''zebra'' \<noteq> [] \<and>
   list_all (\<lambda>r. \<not> like (''%'' @ take 30 ''zebra'' @ ''%'') (d_task r)) (decisions store_seven) \<and>
   get_recent_decisions (Some ''zebra'') store_seven = [] \<and>
   map d_id (get_recent_decisions None store_seven) = [7, 6, 5, 4, 3, 2, 1] \<and>
   newest 10 (decisions store_seven) (get_recent_decisions None store_seven) \<and>
   sublist (take 30 ''saas'') ''Retire the old saas'' \<and>
   CHR 0x00 \<notin> set ''Retire the old saas'' \<and>
   like (''%'' @ take 30 ''saas'' @ ''%'') ''Retire the old saas'' \<and>
   list_all (\<lambda>c. c \<noteq> CHR ''%'' \<and> c \<noteq> CHR ''_'' \<and> c \<noteq> CHR 0x00) (take 30 ''saas'') \<and>
   like (''%'' @ take 30 ''saas'' @ ''%'') ''Migrate Saas logs'' \<and>
   sublist (map ascii_lower (take 30 ''saas'')) (map ascii_lower (c_str ''Migrate Saas logs''))"
proof -
  note saas = get_recent_decisions_like [of store_seven "''saas''" "''Retire the old saas''"]
  note logs = get_recent_decisions_like [of store_seven "''saas''" "''Migrate Saas logs''"]
  note zebra = get_recent_decisions_like [of store_seven "''zebra''" "''Retire the old saas''"]
  have pk: "distinct (map d_id (decisions store_seven))"
    by code_simp
  have ne: "''saas'' \<noteq> []" "''zebra'' \<noteq> []"
    by simp_all
  have ids: "map d_id (get_recent_decisions (Some ''saas'') store_seven) = [7, 6, 5, 4, 2]"
      "map d_id (get_recent_decisions None store_seven) = [7, 6, 5, 4, 3, 2, 1]"
    by code_simp+
  have none: "list_all (\<lambda>r. \<not> like (''%'' @ take 30 ''zebra'' @ ''%'') (d_task r))
      (decisions store_seven)"
    by code_simp
  then have none': "\<forall>r \<in> set (decisions store_seven).
      \<not> like (''%'' @ take 30 ''zebra'' @ ''%'') (d_task r)"
    by (simp add: list_all_iff)
  have sub: "sublist (take 30 ''saas'') ''Retire the old saas''"
    by code_simp
  have nul: "CHR 0x00 \<notin> set ''Retire the old saas''"
    by simp
  have lit: "list_all (\<lambda>c. c \<noteq> CHR ''%'' \<and> c \<noteq> CHR ''_'' \<and> c \<noteq> CHR 0x00) (take 30 ''saas'')"
    by simp
  then have lit': "\<forall>c \<in> set (take 30 ''saas''). c \<noteq> CHR ''%'' \<and> c \<noteq> CHR ''_'' \<and> c \<noteq> CHR 0x00"
    by simp
  have m: "like (''%'' @ take 30 ''saas'' @ ''%'') ''Migrate Saas logs''"
    by code_simp
  from saas pk ne have 1: "newest 5
     (filter (\<lambda>r. like (''%'' @ take 30 ''saas'' @ ''%'') (d_task r)) (decisions store_seven))
     (get_recent_decisions (Some ''saas'') store_seven)"
    by blast
  from zebra ne none' have 2: "get_recent_decisions (Some ''zebra'') store_seven = []"
    by blast
  from saas pk have 3: "newest 10 (decisions store_seven) (get_recent_decisions None store_seven)"
    by blast
  from logs lit' m
  have 4: "sublist (map ascii_lower (take 30 ''saas'')) (map ascii_lower (c_str ''Migrate Saas logs''))"
    by blast
  from saas sub nul have 5: "like (''%'' @ take 30 ''saas'' @ ''%'') ''Retire the old saas''"
    by blast
  from pk ne ids none sub nul lit m 1 2 3 4 5 show ?thesis
    by blast
qed

text \<open>
  C10. The empty string as the filter is the same as no filter: the result is that of
  the unfiltered query. In a store whose decisions have distinct ids (the primary key)
  it is the 10 most recent of all decisions, by descending id, and the only such list.
  It is not the filtered form of up to 5: when the store has more than 5 decisions, it
  differs from the 5 most recent of the decisions that match the pattern \<open>%%\<close>.
\<close>

theorem get_recent_decisions_empty_filter:
  "get_recent_decisions (Some []) s = get_recent_decisions None s \<and>
   length (get_recent_decisions (Some []) s) = min 10 (length (decisions s)) \<and>
   (distinct (map d_id (decisions s)) \<longrightarrow>
      newest 10 (decisions s) (get_recent_decisions (Some []) s) \<and>
      (\<forall>res. newest 10 (decisions s) res \<longrightarrow> res = get_recent_decisions (Some []) s)) \<and>
   (5 < length (decisions s) \<longrightarrow>
      get_recent_decisions (Some []) s \<noteq>
        take 5 (rev (sort_key d_id
          (filter (\<lambda>r. like (''%'' @ take 30 [] @ ''%'') (d_task r)) (decisions s)))))"
proof (intro conjI impI allI)
  show "get_recent_decisions (Some []) s = get_recent_decisions None s"
    by (simp add: get_recent_decisions_def)
  show l: "length (get_recent_decisions (Some []) s) = min 10 (length (decisions s))"
    by (simp add: get_recent_decisions_def)
  {
    assume "5 < length (decisions s)"
    with l have "5 < length (get_recent_decisions (Some []) s)"
      by simp
    moreover have "length (take 5 (rev (sort_key d_id
          (filter (\<lambda>r. like (''%'' @ take 30 [] @ ''%'') (d_task r)) (decisions s))))) \<le> 5"
      by simp
    ultimately show "get_recent_decisions (Some []) s \<noteq>
        take 5 (rev (sort_key d_id
          (filter (\<lambda>r. like (''%'' @ take 30 [] @ ''%'') (d_task r)) (decisions s))))"
      by (metis not_less)
  }
  assume "distinct (map d_id (decisions s))"
  then have "newest 10 (decisions s) (take 10 (rev (sort_key d_id (decisions s))))"
    by (rule newest_take)
  then show n: "newest 10 (decisions s) (get_recent_decisions (Some []) s)"
    by (simp add: get_recent_decisions_def)
  fix res
  assume "newest 10 (decisions s) res"
  then show "res = get_recent_decisions (Some []) s"
    using n by (rule newest_unique)
qed

text \<open>
  Witness for C10: in the store of twelve decisions the empty filter returns the ten
  decisions with the ids 12 down to 3.
\<close>

theorem get_recent_decisions_empty_filter_witness:
  "distinct (map d_id (decisions store_twelve)) \<and>
   5 < length (decisions store_twelve) \<and>
   map d_id (get_recent_decisions (Some []) store_twelve) = [12, 11, 10, 9, 8, 7, 6, 5, 4, 3] \<and>
   newest 10 (decisions store_twelve) (get_recent_decisions (Some []) store_twelve) \<and>
   map d_id (take 5 (rev (sort_key d_id
     (filter (\<lambda>r. like (''%'' @ take 30 [] @ ''%'') (d_task r)) (decisions store_twelve))))) =
     [12, 11, 10, 9, 8] \<and>
   get_recent_decisions (Some []) store_twelve \<noteq>
     take 5 (rev (sort_key d_id
       (filter (\<lambda>r. like (''%'' @ take 30 [] @ ''%'') (d_task r)) (decisions store_twelve))))"
proof -
  note t = get_recent_decisions_empty_filter [of store_twelve]
  have pk: "distinct (map d_id (decisions store_twelve))"
    by code_simp
  have len: "5 < length (decisions store_twelve)"
    by code_simp
  have ids: "map d_id (get_recent_decisions (Some []) store_twelve) =
      [12, 11, 10, 9, 8, 7, 6, 5, 4, 3]"
    by code_simp
  have five: "map d_id (take 5 (rev (sort_key d_id
     (filter (\<lambda>r. like (''%'' @ take 30 [] @ ''%'') (d_task r)) (decisions store_twelve))))) =
     [12, 11, 10, 9, 8]"
    by code_simp
  from t pk have 1: "newest 10 (decisions store_twelve)
      (get_recent_decisions (Some []) store_twelve)"
    by blast
  from t len have 2: "get_recent_decisions (Some []) store_twelve \<noteq>
     take 5 (rev (sort_key d_id
       (filter (\<lambda>r. like (''%'' @ take 30 [] @ ''%'') (d_task r)) (decisions store_twelve))))"
    by blast
  from pk len ids five 1 2 show ?thesis
    by blast
qed


end
